theory Spec2Isabelle
  imports Main
begin

section \<open>The remote service and the effects of the scripts\<close>

text \<open>
  The scripts \<^verbatim>\<open>01_qna_assistant.py\<close> and \<^verbatim>\<open>02_generate_notes.py\<close> talk to a
  remote assistant service, sleep, and print to the console. These effects are made
  explicit: every modelled procedure appends the events it performs to a trace, in the
  order of the source. The answers of the remote service are a parameter (\<open>remote\<close>):
  the \<open>k\<close>-th status check (counting from 0) answers \<open>runs_retrieve rem k\<close>.
\<close>

datatype exn = IndexError | AttributeError | TypeError | Other_exception string

record run =
  status :: string
  last_error :: string

datatype annotation =
    File_citation string
  | File_path "string option"
  | Plain_annotation

record text_part =
  text_value :: string
  annotations :: "annotation list option"

datatype content_block = Text_block text_part | Other_block

type_synonym message = "content_block list"

record remote =
  runs_retrieve :: "nat \<Rightarrow> exn + run"
  messages_list :: "nat \<Rightarrow> exn + message list"
  files_retrieve :: "string \<Rightarrow> exn + string"

text \<open>What the scripts print, one constructor for each \<^verbatim>\<open>print\<close> of the modelled code.\<close>

datatype validation_error =
    WrongArity nat
  | FieldConstraint string string

datatype console =
    Processing_question
  | Generating_notes
  | Progress_dot
  | Blank_line
  | Run_failed string
  | Run_ended string
  | Timeout_waiting
  | Error_in_ask_question exn
  | Error_generating_notes exn
  | Could_not_retrieve_filename string exn
  | Invalid_JSON string
  | Validation_error validation_error
  | Error_creating_notes exn

datatype event =
    Retrieve_run
  | Sleep nat
  | List_messages
  | Retrieve_file string
  | Print console

definition checks :: "event list \<Rightarrow> nat" where
  "checks tr = count_list tr Retrieve_run"

definition sleeps :: "event list \<Rightarrow> nat" where
  "sleeps tr = count_list tr (Sleep 1)"

section \<open>Waiting for a run: \<^verbatim>\<open>ask_question\<close>\<close>

text \<open>
  How a wait loop is left: by \<^verbatim>\<open>break\<close> or by its condition becoming false
  (\<open>Left_loop\<close>, the code after the loop runs), by \<^verbatim>\<open>return None\<close> inside the loop, or
  by an exception of the remote call, which the enclosing \<^verbatim>\<open>try\<close> catches.
\<close>

datatype loop_exit = Left_loop | Returned_None | Raised exn

text \<open>
  \<^verbatim>\<open>
  while attempts < max_attempts:
      run = client.beta.threads.runs.retrieve(thread_id=thread.id, run_id=run.id)
      if run.status == "completed":
          break
      elif run.status == "failed":
          print(f"Run failed: {run.last_error}")
          return None, None
      elif run.status in ["cancelled", "expired"]:
          print(f"Run {run.status}")
          return None, None
      print(".", end="", flush=True)
      time.sleep(1)
      attempts += 1
  \<close>
\<close>

function ask_wait_loop ::
  "remote \<Rightarrow> nat \<Rightarrow> nat \<Rightarrow> event list \<Rightarrow> loop_exit \<times> nat \<times> event list" where
  "ask_wait_loop rem max_attempts attempts tr =
     (if attempts < max_attempts then
        (case runs_retrieve rem (checks tr) of
           Inl e \<Rightarrow> (Raised e, attempts, tr @ [Retrieve_run])
         | Inr r \<Rightarrow>
             if status r = ''completed'' then (Left_loop, attempts, tr @ [Retrieve_run])
             else if status r = ''failed'' then
               (Returned_None, attempts, tr @ [Retrieve_run, Print (Run_failed (last_error r))])
             else if status r \<in> set [''cancelled'', ''expired''] then
               (Returned_None, attempts, tr @ [Retrieve_run, Print (Run_ended (status r))])
             else ask_wait_loop rem max_attempts (attempts + 1)
                    (tr @ [Retrieve_run, Print Progress_dot, Sleep 1]))
      else (Left_loop, attempts, tr))"
  by pat_completeness auto
termination
  by (relation "measure (\<lambda>(rem, max_attempts, attempts, tr). max_attempts - attempts)") auto

declare ask_wait_loop.simps [simp del]

text \<open>
  \<^verbatim>\<open>
  def get_file_name(file_id):
      try:
          file_info = client.files.retrieve(file_id)
          return file_info.filename
      except Exception as e:
          print(f"Could not retrieve filename for {file_id}: {e}")
          return f"Unknown file ({file_id})"
  \<close>
\<close>

definition get_file_name :: "remote \<Rightarrow> event list \<Rightarrow> string \<Rightarrow> event list \<times> string" where
  "get_file_name rem tr file_id =
     (case files_retrieve rem file_id of
        Inr filename \<Rightarrow> (tr @ [Retrieve_file file_id], filename)
      | Inl e \<Rightarrow>
          (tr @ [Retrieve_file file_id, Print (Could_not_retrieve_filename file_id e)],
           ''Unknown file ('' @ file_id @ '')''))"

text \<open>The loop over the annotations of the answer; a citation is the pair of its
  \<^verbatim>\<open>file_id\<close> and \<^verbatim>\<open>citation\<close> entries.\<close>

fun collect_citations ::
  "remote \<Rightarrow> event list \<Rightarrow> annotation list \<Rightarrow> (string \<times> string) list
     \<Rightarrow> event list \<times> (string \<times> string) list" where
  "collect_citations rem tr [] citations = (tr, citations)"
| "collect_citations rem tr (File_citation file_id # rest) citations =
     (case get_file_name rem tr file_id of
        (tr', file_name) \<Rightarrow> collect_citations rem tr' rest (citations @ [(file_id, file_name)]))"
| "collect_citations rem tr (File_path fp # rest) citations =
     (let file_id = (case fp of None \<Rightarrow> ''Unknown'' | Some f \<Rightarrow> f) in
      if file_id \<noteq> ''Unknown'' then
        (case get_file_name rem tr file_id of
           (tr', file_name) \<Rightarrow> collect_citations rem tr' rest (citations @ [(file_id, file_name)]))
      else collect_citations rem tr rest (citations @ [(file_id, ''Unknown file'')]))"
| "collect_citations rem tr (Plain_annotation # rest) citations =
     collect_citations rem tr rest citations"

text \<open>
  The code after the loop, from \<^verbatim>\<open>print("\n")\<close> on: it lists the messages of the thread
  and reads the first content block of the first message. An empty list of messages, an
  empty content (\<^verbatim>\<open>content[0]\<close> in the \<^verbatim>\<open>hasattr\<close> test) and a block without
  \<^verbatim>\<open>text\<close> raise, and the \<^verbatim>\<open>except Exception\<close> of the function prints and returns
  \<^verbatim>\<open>None, None\<close>.
\<close>

definition ask_read_answer ::
  "remote \<Rightarrow> event list \<Rightarrow> event list \<times> (string \<times> (string \<times> string) list) option" where
  "ask_read_answer rem tr =
     (let tr1 = tr @ [Print Blank_line, List_messages] in
      case messages_list rem (checks tr) of
        Inl e \<Rightarrow> (tr1 @ [Print (Error_in_ask_question e)], None)
      | Inr messages \<Rightarrow>
          (case messages of
             [] \<Rightarrow> (tr1 @ [Print (Error_in_ask_question IndexError)], None)
           | response_message # _ \<Rightarrow>
               (case response_message of
                  [] \<Rightarrow> (tr1 @ [Print (Error_in_ask_question IndexError)], None)
                | Other_block # _ \<Rightarrow> (tr1 @ [Print (Error_in_ask_question AttributeError)], None)
                | Text_block t # _ \<Rightarrow>
                    (case annotations t of
                       None \<Rightarrow> (tr1, Some (text_value t, []))
                     | Some anns \<Rightarrow>
                         (case collect_citations rem tr1 anns [] of
                            (tr2, citations) \<Rightarrow> (tr2, Some (text_value t, citations)))))))"

text \<open>
  The wait phase of \<^verbatim>\<open>ask_question\<close>, from \<^verbatim>\<open>print("Processing your question...")\<close> to
  the end of the function, with \<^verbatim>\<open>max_attempts\<close> as a parameter (the source binds it to
  30 just before the loop). After the loop:
  \<^verbatim>\<open>
  if attempts >= max_attempts:
      print("\nTimeout waiting for response")
      return None, None
  \<close>
\<close>

definition ask_question_wait ::
  "remote \<Rightarrow> nat \<Rightarrow> event list \<times> (string \<times> (string \<times> string) list) option" where
  "ask_question_wait rem max_attempts =
     (case ask_wait_loop rem max_attempts 0 [Print Processing_question] of
        (Raised e, attempts, tr) \<Rightarrow> (tr @ [Print (Error_in_ask_question e)], None)
      | (Returned_None, attempts, tr) \<Rightarrow> (tr, None)
      | (Left_loop, attempts, tr) \<Rightarrow>
          if attempts \<ge> max_attempts then (tr @ [Print Timeout_waiting], None)
          else ask_read_answer rem tr)"

text \<open>The function as the source has it, with \<^verbatim>\<open>max_attempts = 30\<close>.\<close>

definition ask_question ::
  "remote \<Rightarrow> event list \<times> (string \<times> (string \<times> string) list) option" where
  "ask_question rem = ask_question_wait rem 30"

section \<open>Waiting for a run: \<^verbatim>\<open>generate_notes_with_assistant\<close>\<close>

text \<open>
  \<^verbatim>\<open>
  while attempts < max_attempts:
      run = client.beta.threads.runs.retrieve(thread_id=thread.id, run_id=run.id)
      if run.status == "completed":
          break
      elif run.status == "failed":
          print(f"Run failed: {run.last_error}")
          return None
      print(".", end="", flush=True)
      time.sleep(1)
      attempts += 1
  \<close>
\<close>

function notes_wait_loop ::
  "remote \<Rightarrow> nat \<Rightarrow> nat \<Rightarrow> event list \<Rightarrow> loop_exit \<times> nat \<times> event list" where
  "notes_wait_loop rem max_attempts attempts tr =
     (if attempts < max_attempts then
        (case runs_retrieve rem (checks tr) of
           Inl e \<Rightarrow> (Raised e, attempts, tr @ [Retrieve_run])
         | Inr r \<Rightarrow>
             if status r = ''completed'' then (Left_loop, attempts, tr @ [Retrieve_run])
             else if status r = ''failed'' then
               (Returned_None, attempts, tr @ [Retrieve_run, Print (Run_failed (last_error r))])
             else notes_wait_loop rem max_attempts (attempts + 1)
                    (tr @ [Retrieve_run, Print Progress_dot, Sleep 1]))
      else (Left_loop, attempts, tr))"
  by pat_completeness auto
termination
  by (relation "measure (\<lambda>(rem, max_attempts, attempts, tr). max_attempts - attempts)") auto

declare notes_wait_loop.simps [simp del]

text \<open>
  After the loop the function prints a newline and returns
  \<^verbatim>\<open>messages.data[0].content[0].text.value\<close>, whatever way the loop was left.
\<close>

definition notes_read_response :: "remote \<Rightarrow> event list \<Rightarrow> event list \<times> string option" where
  "notes_read_response rem tr =
     (let tr1 = tr @ [Print Blank_line, List_messages] in
      case messages_list rem (checks tr) of
        Inl e \<Rightarrow> (tr1 @ [Print (Error_generating_notes e)], None)
      | Inr messages \<Rightarrow>
          (case messages of
             [] \<Rightarrow> (tr1 @ [Print (Error_generating_notes IndexError)], None)
           | m # _ \<Rightarrow>
               (case m of
                  [] \<Rightarrow> (tr1 @ [Print (Error_generating_notes IndexError)], None)
                | Other_block # _ \<Rightarrow> (tr1 @ [Print (Error_generating_notes AttributeError)], None)
                | Text_block t # _ \<Rightarrow> (tr1, Some (text_value t)))))"

definition generate_notes_wait :: "remote \<Rightarrow> nat \<Rightarrow> event list \<times> string option" where
  "generate_notes_wait rem max_attempts =
     (case notes_wait_loop rem max_attempts 0 [Print Generating_notes] of
        (Raised e, attempts, tr) \<Rightarrow> (tr @ [Print (Error_generating_notes e)], None)
      | (Returned_None, attempts, tr) \<Rightarrow> (tr, None)
      | (Left_loop, attempts, tr) \<Rightarrow> notes_read_response rem tr)"

text \<open>The function as the source has it, with \<^verbatim>\<open>max_attempts = 30\<close>.\<close>

definition generate_notes_with_assistant :: "remote \<Rightarrow> event list \<times> string option" where
  "generate_notes_with_assistant rem = generate_notes_wait rem 30"

section \<open>The notes schema and \<^verbatim>\<open>validate_and_create_notes\<close>\<close>

text \<open>
  What \<^verbatim>\<open>json.loads\<close> returns: \<^verbatim>\<open>None\<close>, a bool, an int, a float (kept as its
  lexeme: no check below computes with it), a str, a list, or a dict with str keys, in
  the order of the document and each key once. A \<open>char\<close> of a \<open>string\<close> stands for
  one character of the Python \<^verbatim>\<open>str\<close>, which is what \<^verbatim>\<open>min_length\<close> and
  \<^verbatim>\<open>max_length\<close> count.
\<close>

datatype json =
    JNull
  | JBool bool
  | JInt int
  | JFloat string
  | JString string
  | JArray "json list"
  | JObject "(string \<times> json) list"

datatype loads_result =
    Parsed json
  | JSONDecodeError string
  | Loads_raised exn

text \<open>
  The two libraries the function calls are not part of the repository. The parser is a
  parameter: \<open>json_loads\<close> gives the parsed value, the diagnostic of a
  \<^verbatim>\<open>JSONDecodeError\<close>, or another exception. So are the conversions that the schema
  library, in its default lax mode, applies to a value that is not a JSON integer where
  the schema declares \<^verbatim>\<open>int\<close> (\<open>lax_int\<close>; \<open>None\<close> where it refuses the value).
\<close>

record library =
  json_loads :: "string \<Rightarrow> loads_result"
  lax_int :: "json \<Rightarrow> int option"

text \<open>
  \<^verbatim>\<open>
  class Note(BaseModel):
      id: int = Field(..., ge=1, le=10, description="Note ID from 1 to 10")
      heading: str = Field(..., min_length=1, max_length=100, example="Mean Value Theorem")
      summary: str = Field(..., max_length=150, description="Concise summary of the concept")
      page_ref: Optional[int] = Field(None, description="Page number in source PDF")

  class NotesResponse(BaseModel):
      notes: List[Note] = Field(..., min_items=10, max_items=10, description="Exactly 10 study notes")
  \<close>
\<close>

record Note =
  note_id :: int
  heading :: string
  summary :: string
  page_ref :: "int option"

definition as_int :: "library \<Rightarrow> json \<Rightarrow> int option" where
  "as_int lib v = (case v of JInt i \<Rightarrow> Some i | _ \<Rightarrow> lax_int lib v)"

text \<open>
  The schema library (pydantic) is not under \<^verbatim>\<open>src/\<close>; what the checks below test is
  what the \<^verbatim>\<open>Field\<close> declarations above declare: a field declared with \<^verbatim>\<open>...\<close> is
  required, \<^verbatim>\<open>page_ref\<close> defaults to \<^verbatim>\<open>None\<close>, and keys that are not fields of the
  model are ignored, the library's default. A \<open>validation_error\<close> is the first entry of
  the error that the library raises, under the names of section 4.2 of the spec:
  \<open>WrongArity\<close> with the actual count, \<open>FieldConstraint\<close> with the field and the
  reason. The library validates the fields of a model in the order of their declaration
  and the elements of a list in their order. It raises the too-long error as soon as it
  meets an element beyond \<^verbatim>\<open>max_items\<close>, and tests \<^verbatim>\<open>min_items\<close> only after the
  elements, when all of them are valid: a list of fewer than 10 elements with an invalid
  element is rejected with the error of that element.
\<close>

definition validate_id :: "library \<Rightarrow> (string \<times> json) list \<Rightarrow> validation_error + int" where
  "validate_id lib obj =
     (case map_of obj ''id'' of
        None \<Rightarrow> Inl (FieldConstraint ''id'' ''missing'')
      | Some v \<Rightarrow>
          (case as_int lib v of
             None \<Rightarrow> Inl (FieldConstraint ''id'' ''int_type'')
           | Some i \<Rightarrow>
               if i < 1 then Inl (FieldConstraint ''id'' ''greater_than_equal'')
               else if i > 10 then Inl (FieldConstraint ''id'' ''less_than_equal'')
               else Inr i))"

definition validate_heading :: "(string \<times> json) list \<Rightarrow> validation_error + string" where
  "validate_heading obj =
     (case map_of obj ''heading'' of
        None \<Rightarrow> Inl (FieldConstraint ''heading'' ''missing'')
      | Some (JString s) \<Rightarrow>
          if length s < 1 then Inl (FieldConstraint ''heading'' ''string_too_short'')
          else if length s > 100 then Inl (FieldConstraint ''heading'' ''string_too_long'')
          else Inr s
      | Some _ \<Rightarrow> Inl (FieldConstraint ''heading'' ''string_type''))"

definition validate_summary :: "(string \<times> json) list \<Rightarrow> validation_error + string" where
  "validate_summary obj =
     (case map_of obj ''summary'' of
        None \<Rightarrow> Inl (FieldConstraint ''summary'' ''missing'')
      | Some (JString s) \<Rightarrow>
          if length s > 150 then Inl (FieldConstraint ''summary'' ''string_too_long'')
          else Inr s
      | Some _ \<Rightarrow> Inl (FieldConstraint ''summary'' ''string_type''))"

definition validate_page_ref ::
  "library \<Rightarrow> (string \<times> json) list \<Rightarrow> validation_error + int option" where
  "validate_page_ref lib obj =
     (case map_of obj ''page_ref'' of
        None \<Rightarrow> Inr None
      | Some JNull \<Rightarrow> Inr None
      | Some v \<Rightarrow>
          (case as_int lib v of
             None \<Rightarrow> Inl (FieldConstraint ''page_ref'' ''int_type'')
           | Some p \<Rightarrow> Inr (Some p)))"

definition Note_validate :: "library \<Rightarrow> json \<Rightarrow> validation_error + Note" where
  "Note_validate lib v =
     (case v of
        JObject obj \<Rightarrow>
          (case validate_id lib obj of
             Inl e \<Rightarrow> Inl e
           | Inr i \<Rightarrow>
               (case validate_heading obj of
                  Inl e \<Rightarrow> Inl e
                | Inr h \<Rightarrow>
                    (case validate_summary obj of
                       Inl e \<Rightarrow> Inl e
                     | Inr s \<Rightarrow>
                         (case validate_page_ref lib obj of
                            Inl e \<Rightarrow> Inl e
                          | Inr p \<Rightarrow>
                              Inr \<lparr>note_id = i, heading = h, summary = s, page_ref = p\<rparr>))))
      | _ \<Rightarrow> Inl (FieldConstraint ''notes'' ''model_type''))"

fun validate_items :: "library \<Rightarrow> json list \<Rightarrow> validation_error + Note list" where
  "validate_items lib [] = Inr []"
| "validate_items lib (v # vs) =
     (case Note_validate lib v of
        Inl e \<Rightarrow> Inl e
      | Inr n \<Rightarrow>
          (case validate_items lib vs of
             Inl e \<Rightarrow> Inl e
           | Inr ns \<Rightarrow> Inr (n # ns)))"

definition NotesResponse_validate ::
  "library \<Rightarrow> (string \<times> json) list \<Rightarrow> validation_error + Note list" where
  "NotesResponse_validate lib kwargs =
     (case map_of kwargs ''notes'' of
        None \<Rightarrow> Inl (FieldConstraint ''notes'' ''missing'')
      | Some (JArray items) \<Rightarrow>
          if length items > 10 then Inl (WrongArity (length items))
          else
            (case validate_items lib items of
               Inl e \<Rightarrow> Inl e
             | Inr notes \<Rightarrow>
                 if length notes < 10 then Inl (WrongArity (length notes))
                 else Inr notes)
      | Some _ \<Rightarrow> Inl (FieldConstraint ''notes'' ''list_type''))"

text \<open>
  \<^verbatim>\<open>
  def validate_and_create_notes(json_content):
      try:
          data = json.loads(json_content)
          notes_response = NotesResponse(**data)
          return notes_response.notes
      except json.JSONDecodeError as e:
          print(f"Invalid JSON: {e}")
          return None
      except ValidationError as e:
          print(f"Validation error: {e}")
          return None
      except Exception as e:
          print(f"Error creating notes: {e}")
          return None
  \<close>
  \<^verbatim>\<open>NotesResponse(**data)\<close> raises \<^verbatim>\<open>TypeError\<close> when \<^verbatim>\<open>data\<close> is not a dict. The
  function takes the trace so far and returns it extended, with the list of notes or
  \<open>None\<close>.
\<close>

definition validate_and_create_notes ::
  "library \<Rightarrow> event list \<Rightarrow> string \<Rightarrow> event list \<times> Note list option" where
  "validate_and_create_notes lib tr json_content =
     (case json_loads lib json_content of
        JSONDecodeError d \<Rightarrow> (tr @ [Print (Invalid_JSON d)], None)
      | Loads_raised e \<Rightarrow> (tr @ [Print (Error_creating_notes e)], None)
      | Parsed data \<Rightarrow>
          (case data of
             JObject kwargs \<Rightarrow>
               (case NotesResponse_validate lib kwargs of
                  Inl err \<Rightarrow> (tr @ [Print (Validation_error err)], None)
                | Inr notes \<Rightarrow> (tr, Some notes))
           | _ \<Rightarrow> (tr @ [Print (Error_creating_notes TypeError)], None)))"

section \<open>Concrete runs\<close>

text \<open>
  Three remote services for the concrete runs below. In each the thread holds one
  message with one text block. \<open>scenario_remote\<close> reports \<^verbatim>\<open>running\<close> twice and then
  \<^verbatim>\<open>completed\<close>; \<open>stuck_remote\<close> reports \<^verbatim>\<open>in_progress\<close> for ever;
  \<open>cancelled_remote\<close> reports \<^verbatim>\<open>cancelled\<close> from the first check on.
\<close>

definition thread_with :: "string \<Rightarrow> nat \<Rightarrow> exn + message list" where
  "thread_with s = (\<lambda>k. Inr [[Text_block \<lparr>text_value = s, annotations = Some []\<rparr>]])"

definition scenario_remote :: remote where
  "scenario_remote =
     \<lparr>runs_retrieve =
        (\<lambda>k. Inr \<lparr>status = (if k < 2 then ''running'' else ''completed''), last_error = []\<rparr>),
      messages_list = thread_with ''the answer'',
      files_retrieve = (\<lambda>f. Inl (Other_exception ''no such file''))\<rparr>"

definition stuck_remote :: remote where
  "stuck_remote =
     \<lparr>runs_retrieve = (\<lambda>k. Inr \<lparr>status = ''in_progress'', last_error = []\<rparr>),
      messages_list = thread_with ''the request'',
      files_retrieve = (\<lambda>f. Inl (Other_exception ''no such file''))\<rparr>"

definition cancelled_remote :: remote where
  "cancelled_remote =
     \<lparr>runs_retrieve = (\<lambda>k. Inr \<lparr>status = ''cancelled'', last_error = []\<rparr>),
      messages_list = thread_with ''the request'',
      files_retrieve = (\<lambda>f. Inl (Other_exception ''no such file''))\<rparr>"

text \<open>
  \<open>waiting n\<close> is the trace of \<open>n\<close> iterations of a wait loop that found the run
  neither finished nor failed. \<open>pending_ask\<close> and \<open>pending_notes\<close> say that the
  \<open>k\<close>-th status check is answered with a status that the loop of \<^verbatim>\<open>ask_question\<close>,
  or of \<^verbatim>\<open>generate_notes_with_assistant\<close>, does not test for.
\<close>

definition waiting :: "nat \<Rightarrow> event list" where
  "waiting n = concat (replicate n [Retrieve_run, Print Progress_dot, Sleep 1])"

definition pending_ask :: "remote \<Rightarrow> nat \<Rightarrow> bool" where
  "pending_ask rem k =
     (case runs_retrieve rem k of
        Inl e \<Rightarrow> False
      | Inr r \<Rightarrow> status r \<notin> set [''completed'', ''failed'', ''cancelled'', ''expired''])"

definition pending_notes :: "remote \<Rightarrow> nat \<Rightarrow> bool" where
  "pending_notes rem k =
     (case runs_retrieve rem k of
        Inl e \<Rightarrow> False
      | Inr r \<Rightarrow> status r \<notin> set [''completed'', ''failed''])"

section \<open>Concrete documents\<close>

text \<open>
  Documents for the concrete runs of the validation, each with the text that
  \<^verbatim>\<open>json.loads\<close> reads it from. \<open>reading t d\<close> is a library whose parser reads the
  text \<open>t\<close> as the document \<open>d\<close> and raises \<^verbatim>\<open>JSONDecodeError\<close> on any other text, and
  whose schema validation converts nothing.
\<close>

definition reading :: "string \<Rightarrow> json \<Rightarrow> library" where
  "reading t d =
     \<lparr>json_loads =
        (\<lambda>s. if s = t then Parsed d
             else JSONDecodeError ''Expecting value: line 1 column 1 (char 0)''),
      lax_int = (\<lambda>v. None)\<rparr>"

definition plain_note :: "int \<Rightarrow> json" where
  "plain_note i =
     JObject [(''id'', JInt i), (''heading'', JString ''H''), (''summary'', JString ''S'')]"


definition result_note :: "int \<Rightarrow> int option \<Rightarrow> Note" where
  "result_note i p = \<lparr>note_id = i, heading = ''H'', summary = ''S'', page_ref = p\<rparr>"

definition text_empty_notes :: string where
  \<open>text_empty_notes = ''{"notes": []}''\<close>

definition doc_empty_notes :: json where
  "doc_empty_notes = JObject [(''notes'', JArray [])]"

definition text_negative_page :: string where
  \<open>text_negative_page =
     ''{"notes":[{"id":1,"heading":"H","summary":"S","page_ref":-5},{"id":2,"heading":"''
     @ ''H","summary":"S"},{"id":3,"heading":"H","summary":"S"},{"id":4,"heading":"H","su''
     @ ''mmary":"S"},{"id":5,"heading":"H","summary":"S"},{"id":6,"heading":"H","summary"''
     @ '':"S"},{"id":7,"heading":"H","summary":"S"},{"id":8,"heading":"H","summary":"S"},''
     @ ''{"id":9,"heading":"H","summary":"S"},{"id":10,"heading":"H","summary":"S"}]}''\<close>

definition doc_negative_page :: json where
  "doc_negative_page =
     JObject [(''notes'', JArray
       (JObject [(''id'', JInt 1), (''heading'', JString ''H''), (''summary'', JString ''S''),
                 (''page_ref'', JInt (- 5))]
        # map plain_note [2, 3, 4, 5, 6, 7, 8, 9, 10]))]"

definition text_duplicate_ids :: string where
  \<open>text_duplicate_ids =
     ''{"notes":[{"id":1,"heading":"H","summary":"S"},{"id":1,"heading":"H","summary":"''
     @ ''S"},{"id":1,"heading":"H","summary":"S"},{"id":1,"heading":"H","summary":"S"},{"''
     @ ''id":1,"heading":"H","summary":"S"},{"id":1,"heading":"H","summary":"S"},{"id":1,''
     @ ''"heading":"H","summary":"S"},{"id":1,"heading":"H","summary":"S"},{"id":1,"headi''
     @ ''ng":"H","summary":"S"},{"id":1,"heading":"H","summary":"S"}]}''\<close>

definition doc_duplicate_ids :: json where
  "doc_duplicate_ids =
     JObject [(''notes'', JArray (map plain_note [1, 1, 1, 1, 1, 1, 1, 1, 1, 1]))]"









section \<open>Counting checks and sleeps\<close>

lemma checks_simps [simp]:
  "checks [] = 0"
  "checks (tr @ tr') = checks tr + checks tr'"
  "checks (Retrieve_run # tr) = Suc (checks tr)"
  "checks (Sleep n # tr) = checks tr"
  "checks (List_messages # tr) = checks tr"
  "checks (Retrieve_file f # tr) = checks tr"
  "checks (Print c # tr) = checks tr"
  by (simp_all add: checks_def)

lemma sleeps_simps [simp]:
  "sleeps [] = 0"
  "sleeps (tr @ tr') = sleeps tr + sleeps tr'"
  "sleeps (Retrieve_run # tr) = sleeps tr"
  "sleeps (Sleep n # tr) = (if n = 1 then Suc (sleeps tr) else sleeps tr)"
  "sleeps (List_messages # tr) = sleeps tr"
  "sleeps (Retrieve_file f # tr) = sleeps tr"
  "sleeps (Print c # tr) = sleeps tr"
  by (simp_all add: sleeps_def)

lemma ask_wait_loop_counts:
  "ask_wait_loop rem m a tr = (ex, a', tr') \<Longrightarrow> a \<le> m \<Longrightarrow>
     a \<le> a' \<and> a' \<le> m \<and> sleeps tr' = sleeps tr + (a' - a) \<and>
     checks tr' = checks tr + (a' - a) + (if a' = m then 0 else 1) \<and> (a' = m \<longrightarrow> ex = Left_loop)"
proof (induction rem m a tr rule: ask_wait_loop.induct)
  case (1 rem m a tr)
  show ?case
  proof (cases "a < m")
    case False
    with "1.prems" show ?thesis by (simp add: ask_wait_loop.simps)
  next
    case True
    show ?thesis
    proof (cases "runs_retrieve rem (checks tr)")
      case (Inl e)
      with True "1.prems" show ?thesis by (auto simp add: ask_wait_loop.simps)
    next
      case (Inr r)
      show ?thesis
      proof (cases "status r = ''completed'' \<or> status r = ''failed'' \<or> status r \<in> set [''cancelled'', ''expired'']")
        case True
        with \<open>a < m\<close> Inr "1.prems" show ?thesis
          by (auto simp add: ask_wait_loop.simps split: if_splits)
      next
        case False
        with \<open>a < m\<close> Inr "1.prems"(1)
        have rec: "ask_wait_loop rem m (a + 1) (tr @ [Retrieve_run, Print Progress_dot, Sleep 1]) = (ex, a', tr')"
          by (simp add: ask_wait_loop.simps)
        from False have "status r \<noteq> ''completed''" "status r \<noteq> ''failed''" "status r \<notin> set [''cancelled'', ''expired'']" by auto
        from "1.IH" [OF \<open>a < m\<close> Inr this rec] \<open>a < m\<close>
        show ?thesis by (auto split: if_splits)
      qed
    qed
  qed
qed

lemma notes_wait_loop_counts:
  "notes_wait_loop rem m a tr = (ex, a', tr') \<Longrightarrow> a \<le> m \<Longrightarrow>
     a \<le> a' \<and> a' \<le> m \<and> sleeps tr' = sleeps tr + (a' - a) \<and>
     checks tr' = checks tr + (a' - a) + (if a' = m then 0 else 1) \<and> (a' = m \<longrightarrow> ex = Left_loop)"
proof (induction rem m a tr rule: notes_wait_loop.induct)
  case (1 rem m a tr)
  show ?case
  proof (cases "a < m")
    case False
    with "1.prems" show ?thesis by (simp add: notes_wait_loop.simps)
  next
    case True
    show ?thesis
    proof (cases "runs_retrieve rem (checks tr)")
      case (Inl e)
      with True "1.prems" show ?thesis by (auto simp add: notes_wait_loop.simps)
    next
      case (Inr r)
      show ?thesis
      proof (cases "status r = ''completed'' \<or> status r = ''failed''")
        case True
        with \<open>a < m\<close> Inr "1.prems" show ?thesis
          by (auto simp add: notes_wait_loop.simps split: if_splits)
      next
        case False
        with \<open>a < m\<close> Inr "1.prems"(1)
        have rec: "notes_wait_loop rem m (a + 1) (tr @ [Retrieve_run, Print Progress_dot, Sleep 1]) = (ex, a', tr')"
          by (simp add: notes_wait_loop.simps)
        from False have "status r \<noteq> ''completed''" "status r \<noteq> ''failed''" by auto
        from "1.IH" [OF \<open>a < m\<close> Inr this rec] \<open>a < m\<close>
        show ?thesis by (auto split: if_splits)
      qed
    qed
  qed
qed

lemma get_file_name_counts:
  "get_file_name rem tr f = (tr', n) \<Longrightarrow> checks tr' = checks tr \<and> sleeps tr' = sleeps tr"
  by (auto simp add: get_file_name_def split: sum.splits)

lemma collect_citations_counts:
  "collect_citations rem tr anns cs = (tr', cs') \<Longrightarrow> checks tr' = checks tr \<and> sleeps tr' = sleeps tr"
proof (induction rem tr anns cs rule: collect_citations.induct)
  case (1 rem tr citations)
  then show ?case by simp
next
  case (2 rem tr file_id rest citations)
  obtain tr1 n where g: "get_file_name rem tr file_id = (tr1, n)" by (cases "get_file_name rem tr file_id")
  with 2 get_file_name_counts [OF g] show ?case by simp
next
  case (3 rem tr fp rest citations)
  define file_id where "file_id = (case fp of None \<Rightarrow> ''Unknown'' | Some f \<Rightarrow> f)"
  show ?case
  proof (cases "file_id \<noteq> ''Unknown''")
    case True
    obtain tr1 n where g: "get_file_name rem tr file_id = (tr1, n)" by (cases "get_file_name rem tr file_id")
    from "3.prems" True g have "collect_citations rem tr1 rest (citations @ [(file_id, n)]) = (tr', cs')"
      by (simp add: file_id_def Let_def)
    from "3.IH"(1) [OF file_id_def True g [symmetric] this] get_file_name_counts [OF g]
    show ?thesis by simp
  next
    case False
    with "3.prems" have "collect_citations rem tr rest (citations @ [(file_id, ''Unknown file'')]) = (tr', cs')"
      by (simp add: file_id_def Let_def)
    from "3.IH"(2) [OF file_id_def False this] show ?thesis .
  qed
next
  case (4 rem tr rest citations)
  then show ?case by simp
qed

lemma ask_read_answer_counts:
  "checks (fst (ask_read_answer rem tr)) = checks tr \<and> sleeps (fst (ask_read_answer rem tr)) = sleeps tr"
  by (auto simp add: ask_read_answer_def Let_def dest: collect_citations_counts
      split: sum.splits list.splits content_block.splits option.splits prod.splits)

lemma notes_read_response_counts:
  "checks (fst (notes_read_response rem tr)) = checks tr \<and> sleeps (fst (notes_read_response rem tr)) = sleeps tr"
  by (auto simp add: notes_read_response_def Let_def
      split: sum.splits list.splits content_block.splits option.splits prod.splits)

lemma ask_question_wait_counts:
  "checks (fst (ask_question_wait rem m)) \<le> m \<and> sleeps (fst (ask_question_wait rem m)) \<le> m
   \<and> (Suc (sleeps (fst (ask_question_wait rem m))) = checks (fst (ask_question_wait rem m))
        \<or> sleeps (fst (ask_question_wait rem m)) = m \<and> checks (fst (ask_question_wait rem m)) = m)"
proof -
  obtain ex a' tr' where l: "ask_wait_loop rem m 0 [Print Processing_question] = (ex, a', tr')"
    by (cases "ask_wait_loop rem m 0 [Print Processing_question]")
  from ask_wait_loop_counts [OF l] have c: "a' \<le> m" "sleeps tr' = a'"
    "checks tr' = a' + (if a' = m then 0 else 1)" "a' = m \<longrightarrow> ex = Left_loop" by simp_all
  show ?thesis
    using l c ask_read_answer_counts [of rem tr']
    by (cases ex) (auto simp add: ask_question_wait_def split: if_splits)
qed

lemma generate_notes_wait_counts:
  "checks (fst (generate_notes_wait rem m)) \<le> m \<and> sleeps (fst (generate_notes_wait rem m)) \<le> m
   \<and> (Suc (sleeps (fst (generate_notes_wait rem m))) = checks (fst (generate_notes_wait rem m))
        \<or> sleeps (fst (generate_notes_wait rem m)) = m \<and> checks (fst (generate_notes_wait rem m)) = m)"
proof -
  obtain ex a' tr' where l: "notes_wait_loop rem m 0 [Print Generating_notes] = (ex, a', tr')"
    by (cases "notes_wait_loop rem m 0 [Print Generating_notes]")
  from notes_wait_loop_counts [OF l] have c: "a' \<le> m" "sleeps tr' = a'"
    "checks tr' = a' + (if a' = m then 0 else 1)" "a' = m \<longrightarrow> ex = Left_loop" by simp_all
  show ?thesis
    using l c notes_read_response_counts [of rem tr']
    by (cases ex) (auto simp add: generate_notes_wait_def split: if_splits)
qed

lemma waiting_simps [simp]:
  "waiting 0 = []"
  "waiting (Suc n) = [Retrieve_run, Print Progress_dot, Sleep 1] @ waiting n"
  "checks (waiting n) = n"
  "sleeps (waiting n) = n"
  by (induction n) (simp_all add: waiting_def)

lemma waiting_snoc: "waiting n @ [Retrieve_run, Print Progress_dot, Sleep 1] = waiting (Suc n)"
  by (induction n) simp_all

lemma ask_wait_loop_pending:
  "a \<le> m \<Longrightarrow> (\<And>k. checks tr \<le> k \<Longrightarrow> k < checks tr + n \<Longrightarrow> pending_ask rem k) \<Longrightarrow>
     a + n \<le> m \<Longrightarrow>
     ask_wait_loop rem m a tr = ask_wait_loop rem m (a + n) (tr @ waiting n)"
proof (induction n arbitrary: a tr)
  case 0
  then show ?case by simp
next
  case (Suc n)
  from Suc.prems have p: "pending_ask rem (checks tr)" by simp
  from Suc.prems have lt: "a < m" by simp
  from p lt have step: "ask_wait_loop rem m a tr =
      ask_wait_loop rem m (a + 1) (tr @ [Retrieve_run, Print Progress_dot, Sleep 1])"
    by (subst ask_wait_loop.simps) (auto simp add: pending_ask_def split: sum.splits)
  have "ask_wait_loop rem m (a + 1) (tr @ [Retrieve_run, Print Progress_dot, Sleep 1]) =
      ask_wait_loop rem m (a + 1 + n) ((tr @ [Retrieve_run, Print Progress_dot, Sleep 1]) @ waiting n)"
    using Suc.prems by (intro Suc.IH) simp_all
  with step show ?case by simp
qed

lemma notes_wait_loop_pending:
  "a \<le> m \<Longrightarrow> (\<And>k. checks tr \<le> k \<Longrightarrow> k < checks tr + n \<Longrightarrow> pending_notes rem k) \<Longrightarrow>
     a + n \<le> m \<Longrightarrow>
     notes_wait_loop rem m a tr = notes_wait_loop rem m (a + n) (tr @ waiting n)"
proof (induction n arbitrary: a tr)
  case 0
  then show ?case by simp
next
  case (Suc n)
  from Suc.prems have p: "pending_notes rem (checks tr)" by simp
  from Suc.prems have lt: "a < m" by simp
  from p lt have step: "notes_wait_loop rem m a tr =
      notes_wait_loop rem m (a + 1) (tr @ [Retrieve_run, Print Progress_dot, Sleep 1])"
    by (subst notes_wait_loop.simps) (auto simp add: pending_notes_def split: sum.splits)
  have "notes_wait_loop rem m (a + 1) (tr @ [Retrieve_run, Print Progress_dot, Sleep 1]) =
      notes_wait_loop rem m (a + 1 + n) ((tr @ [Retrieve_run, Print Progress_dot, Sleep 1]) @ waiting n)"
    using Suc.prems by (intro Suc.IH) simp_all
  with step show ?case by simp
qed

lemma ask_question_wait_timeout:
  assumes "\<And>k. k < m \<Longrightarrow> pending_ask rem k"
  shows "ask_question_wait rem m =
           (Print Processing_question # waiting m @ [Print Timeout_waiting], None)"
proof -
  have "ask_wait_loop rem m 0 [Print Processing_question] =
        ask_wait_loop rem m (0 + m) ([Print Processing_question] @ waiting m)"
    using assms by (intro ask_wait_loop_pending) simp_all
  also have "\<dots> = (Left_loop, m, [Print Processing_question] @ waiting m)"
    by (subst ask_wait_loop.simps) simp
  finally show ?thesis by (simp add: ask_question_wait_def)
qed

lemma generate_notes_wait_exhausted:
  assumes "\<And>k. k < m \<Longrightarrow> pending_notes rem k"
  shows "generate_notes_wait rem m =
           notes_read_response rem (Print Generating_notes # waiting m)"
proof -
  have "notes_wait_loop rem m 0 [Print Generating_notes] =
        notes_wait_loop rem m (0 + m) ([Print Generating_notes] @ waiting m)"
    using assms by (intro notes_wait_loop_pending) simp_all
  also have "\<dots> = (Left_loop, m, [Print Generating_notes] @ waiting m)"
    by (subst notes_wait_loop.simps) simp
  finally show ?thesis by (simp add: generate_notes_wait_def)
qed

lemma ask_question_wait_failure:
  assumes "\<And>j. j < k \<Longrightarrow> pending_ask rem j" and "k < m"
    and "runs_retrieve rem k = Inr r"
    and "status r \<in> set [''failed'', ''cancelled'', ''expired'']"
  shows "ask_question_wait rem m =
           (Print Processing_question # waiting k @
              [Retrieve_run,
               Print (if status r = ''failed'' then Run_failed (last_error r) else Run_ended (status r))],
            None)"
proof -
  have "ask_wait_loop rem m 0 [Print Processing_question] =
        ask_wait_loop rem m (0 + k) ([Print Processing_question] @ waiting k)"
    using assms by (intro ask_wait_loop_pending) simp_all
  also have "\<dots> = (Returned_None, k, [Print Processing_question] @ waiting k @
              [Retrieve_run,
               Print (if status r = ''failed'' then Run_failed (last_error r) else Run_ended (status r))])"
    using assms(2-4) by (subst ask_wait_loop.simps) auto
  finally show ?thesis by (simp add: ask_question_wait_def)
qed

lemma stuck_pending: "pending_notes stuck_remote k" "pending_ask stuck_remote k"
  by (simp_all add: pending_notes_def pending_ask_def stuck_remote_def)

section \<open>The claims about waiting\<close>

text \<open>
  C1 (as amended). For every \<open>max_attempts \<ge> 1\<close> and every remote service, the wait of
  \<^verbatim>\<open>ask_question\<close> and the wait of \<^verbatim>\<open>generate_notes_with_assistant\<close> perform at most
  \<open>max_attempts\<close> status checks and at most \<open>max_attempts\<close> sleeps. The sleeps are one
  fewer than the checks, hence at most \<open>max_attempts - 1\<close>, unless all \<open>max_attempts\<close>
  checks were made and each was followed by a sleep. With \<open>max_attempts = 3\<close> and the
  statuses running, running, completed, both return the output after exactly 3 checks
  and 2 sleeps.
\<close>

theorem wait_checks_and_sleeps:
  assumes "1 \<le> max_attempts"
  shows "checks (fst (ask_question_wait rem max_attempts)) \<le> max_attempts
       \<and> sleeps (fst (ask_question_wait rem max_attempts)) \<le> max_attempts
       \<and> (Suc (sleeps (fst (ask_question_wait rem max_attempts)))
             = checks (fst (ask_question_wait rem max_attempts))
            \<or> sleeps (fst (ask_question_wait rem max_attempts)) = max_attempts
              \<and> checks (fst (ask_question_wait rem max_attempts)) = max_attempts)
       \<and> checks (fst (generate_notes_wait rem max_attempts)) \<le> max_attempts
       \<and> sleeps (fst (generate_notes_wait rem max_attempts)) \<le> max_attempts
       \<and> (Suc (sleeps (fst (generate_notes_wait rem max_attempts)))
             = checks (fst (generate_notes_wait rem max_attempts))
            \<or> sleeps (fst (generate_notes_wait rem max_attempts)) = max_attempts
              \<and> checks (fst (generate_notes_wait rem max_attempts)) = max_attempts)
       \<and> checks (fst (ask_question_wait scenario_remote 3)) = 3
       \<and> sleeps (fst (ask_question_wait scenario_remote 3)) = 2
       \<and> snd (ask_question_wait scenario_remote 3) = Some (''the answer'', [])
       \<and> checks (fst (generate_notes_wait scenario_remote 3)) = 3
       \<and> sleeps (fst (generate_notes_wait scenario_remote 3)) = 2
       \<and> snd (generate_notes_wait scenario_remote 3) = Some ''the answer''"
proof -
  have ask: "ask_question_wait scenario_remote 3 =
      (Print Processing_question # waiting 2 @ [Retrieve_run, Print Blank_line, List_messages],
       Some (''the answer'', []))"
    by (simp add: ask_question_wait_def ask_wait_loop.simps scenario_remote_def
        ask_read_answer_def thread_with_def numeral_2_eq_2)
  have gen: "generate_notes_wait scenario_remote 3 =
      (Print Generating_notes # waiting 2 @ [Retrieve_run, Print Blank_line, List_messages],
       Some ''the answer'')"
    by (simp add: generate_notes_wait_def notes_wait_loop.simps scenario_remote_def
        notes_read_response_def thread_with_def numeral_2_eq_2)
  show ?thesis
    using ask_question_wait_counts [of rem max_attempts]
      generate_notes_wait_counts [of rem max_attempts]
    by (simp add: ask gen)
qed

theorem wait_checks_and_sleeps_witness:
  "(1::nat) \<le> 3
   \<and> checks (fst (ask_question_wait stuck_remote 3)) \<le> 3
   \<and> sleeps (fst (ask_question_wait stuck_remote 3)) \<le> 3
   \<and> checks (fst (generate_notes_wait stuck_remote 3)) \<le> 3
   \<and> sleeps (fst (generate_notes_wait stuck_remote 3)) \<le> 3
   \<and> checks (fst (ask_question_wait scenario_remote 3)) = 3
   \<and> sleeps (fst (ask_question_wait scenario_remote 3)) = 2"
proof -
  have h: "(1::nat) \<le> 3" by simp
  show ?thesis using h wait_checks_and_sleeps [OF h, of stuck_remote] by simp
qed

text \<open>
  C1 as stated fails: when every check finds the run still in progress the loop sleeps
  after the last check too, so with \<open>max_attempts = 1\<close> there is one sleep, not at most
  \<open>max_attempts - 1 = 0\<close>, and with the 30 of the source there are 30 sleeps, not at
  most 29.
\<close>

theorem wait_sleeps_counterexample:
  "(1::nat) \<le> 1
   \<and> \<not> sleeps (fst (ask_question_wait stuck_remote 1)) \<le> 1 - 1
   \<and> \<not> sleeps (fst (generate_notes_wait stuck_remote 1)) \<le> 1 - 1
   \<and> sleeps (fst (ask_question stuck_remote)) = 30
   \<and> sleeps (fst (generate_notes_with_assistant stuck_remote)) = 30"
  by (simp add: ask_question_wait_def ask_wait_loop.simps generate_notes_wait_def
      notes_wait_loop.simps stuck_remote_def notes_read_response_def thread_with_def
      ask_question_def generate_notes_with_assistant_def)

text \<open>
  C2 at its failing input. \<^verbatim>\<open>generate_notes_with_assistant\<close> has no test after its
  loop: when all 30 checks find the run in progress it goes on to read the thread and
  returns the text of its first message as if it were the output, and prints no timeout.
  On the same remote service \<^verbatim>\<open>ask_question\<close> prints the timeout message and returns
  \<^verbatim>\<open>None\<close>.
\<close>

theorem generate_notes_wait_no_timeout:
  "checks (fst (generate_notes_with_assistant stuck_remote)) = 30
   \<and> Print Timeout_waiting \<notin> set (fst (generate_notes_with_assistant stuck_remote))
   \<and> snd (generate_notes_with_assistant stuck_remote) = Some ''the request''
   \<and> ask_question stuck_remote =
       (Print Processing_question # waiting 30 @ [Print Timeout_waiting], None)"
proof -
  have "ask_question stuck_remote =
       (Print Processing_question # waiting 30 @ [Print Timeout_waiting], None)"
    unfolding ask_question_def by (rule ask_question_wait_timeout) (rule stuck_pending)
  then show ?thesis
    by (simp add: generate_notes_with_assistant_def generate_notes_wait_def
        notes_wait_loop.simps stuck_remote_def notes_read_response_def thread_with_def)
qed

text \<open>
  C3 at its failing input. The loop of \<^verbatim>\<open>generate_notes_with_assistant\<close> tests
  \<^verbatim>\<open>failed\<close> only: a run reported \<^verbatim>\<open>cancelled\<close> on the first check is checked 29
  more times, with 30 sleeps, and then the thread is read and a text returned. On the
  same remote service \<^verbatim>\<open>ask_question\<close> returns \<^verbatim>\<open>None\<close> right after the first check.
\<close>

theorem generate_notes_wait_cancelled:
  "runs_retrieve cancelled_remote 0 = Inr \<lparr>status = ''cancelled'', last_error = []\<rparr>
   \<and> checks (fst (generate_notes_with_assistant cancelled_remote)) = 30
   \<and> sleeps (fst (generate_notes_with_assistant cancelled_remote)) = 30
   \<and> snd (generate_notes_with_assistant cancelled_remote) = Some ''the request''
   \<and> ask_question cancelled_remote =
       ([Print Processing_question, Retrieve_run, Print (Run_ended ''cancelled'')], None)"
  by (simp add: generate_notes_with_assistant_def generate_notes_wait_def
      notes_wait_loop.simps cancelled_remote_def notes_read_response_def thread_with_def
      ask_question_def ask_question_wait_def ask_wait_loop.simps)

text \<open>
  In the source \<^verbatim>\<open>max_attempts\<close> is not an argument: both functions bind it to 30 just
  before the loop. So every call makes at least one status check.
\<close>

lemma wait_at_least_one_check:
  "1 \<le> checks (fst (ask_question rem)) \<and> 1 \<le> checks (fst (generate_notes_with_assistant rem))"
  using ask_question_wait_counts [of rem 30] generate_notes_wait_counts [of rem 30]
  by (auto simp add: ask_question_def generate_notes_with_assistant_def)

section \<open>Properties of the schema validation\<close>

lemma validate_id_range:
  "validate_id lib obj = Inr i \<Longrightarrow> 1 \<le> i \<and> i \<le> 10"
  by (simp add: validate_id_def split: option.splits if_splits)

lemma Note_validate_id_range:
  assumes "Note_validate lib v = Inr n"
  shows "1 \<le> note_id n \<and> note_id n \<le> 10"
proof (cases v)
  case (JObject obj)
  with assms obtain i where "validate_id lib obj = Inr i" "note_id n = i"
    by (auto simp add: Note_validate_def split: sum.splits)
  with validate_id_range [of lib obj i] show ?thesis by simp
qed (use assms in \<open>simp_all add: Note_validate_def\<close>)

lemma validate_items_length:
  "validate_items lib vs = Inr ns \<Longrightarrow> length ns = length vs"
  by (induction vs arbitrary: ns) (auto split: sum.splits)

lemma validate_items_id_range:
  "validate_items lib vs = Inr ns \<Longrightarrow> n \<in> set ns \<Longrightarrow> 1 \<le> note_id n \<and> note_id n \<le> 10"
  by (induction vs arbitrary: ns) (auto dest: Note_validate_id_range split: sum.splits)

lemma NotesResponse_validate_Inr:
  assumes "NotesResponse_validate lib kwargs = Inr ns"
  shows "\<exists>items. map_of kwargs ''notes'' = Some (JArray items) \<and> length items = 10
       \<and> validate_items lib items = Inr ns"
proof (cases "map_of kwargs ''notes''")
  case None
  with assms show ?thesis by (simp add: NotesResponse_validate_def)
next
  case (Some v)
  show ?thesis
  proof (cases v)
    case (JArray items)
    with Some assms have le: "\<not> 10 < length items"
      by (auto simp add: NotesResponse_validate_def split: if_splits)
    with Some JArray assms obtain ms where ms: "validate_items lib items = Inr ms"
      "\<not> length ms < 10" "ms = ns"
      by (auto simp add: NotesResponse_validate_def split: sum.splits if_splits)
    with validate_items_length [of lib items ms] le have "length items = 10" by simp
    with Some JArray ms show ?thesis by simp
  qed (use Some assms in \<open>simp_all add: NotesResponse_validate_def\<close>)
qed


lemma validate_and_create_notes_Some:
  assumes "validate_and_create_notes lib tr s = (tr', Some ns)"
  shows "tr' = tr \<and> (\<exists>kwargs. json_loads lib s = Parsed (JObject kwargs)
       \<and> NotesResponse_validate lib kwargs = Inr ns)"
proof (cases "json_loads lib s")
  case (Parsed data)
  with assms show ?thesis
    by (cases data) (simp_all add: validate_and_create_notes_def split: sum.splits)
qed (use assms in \<open>simp_all add: validate_and_create_notes_def\<close>)

lemma validate_and_create_notes_prints:
  "\<exists>ms. length ms \<le> 1 \<and> (\<forall>tr. validate_and_create_notes lib tr s =
           (tr @ map Print ms, snd (validate_and_create_notes lib [] s)))"
proof (cases "json_loads lib s")
  case (JSONDecodeError d)
  then show ?thesis
    by (intro exI [of _ "[Invalid_JSON d]"]) (simp add: validate_and_create_notes_def)
next
  case (Loads_raised e)
  then show ?thesis
    by (intro exI [of _ "[Error_creating_notes e]"]) (simp add: validate_and_create_notes_def)
next
  case (Parsed data)
  show ?thesis
  proof (cases "\<exists>kwargs. data = JObject kwargs")
    case False
    with Parsed show ?thesis
      by (intro exI [of _ "[Error_creating_notes TypeError]"])
        (cases data; simp add: validate_and_create_notes_def)
  next
    case True
    then obtain kwargs where d: "data = JObject kwargs" by blast
    show ?thesis
    proof (cases "NotesResponse_validate lib kwargs")
      case (Inl err)
      with Parsed d show ?thesis
        by (intro exI [of _ "[Validation_error err]"]) (simp add: validate_and_create_notes_def)
    next
      case (Inr ns)
      with Parsed d show ?thesis
        by (intro exI [of _ "[]"]) (simp add: validate_and_create_notes_def)
    qed
  qed
qed







section \<open>The claims about validation\<close>







text \<open>
  C6. For every text on which the parser raises \<^verbatim>\<open>JSONDecodeError\<close> with diagnostic
  \<open>d\<close>, the validation prints the invalid-JSON message carrying \<open>d\<close> and returns
  \<^verbatim>\<open>None\<close>: no notes, and no exception leaves the function.
\<close>

theorem malformed_json:
  assumes "json_loads lib s = JSONDecodeError d"
  shows "validate_and_create_notes lib tr s = (tr @ [Print (Invalid_JSON d)], None)"
  using assms by (simp add: validate_and_create_notes_def)

theorem malformed_json_witness:
  "validate_and_create_notes (reading text_empty_notes doc_empty_notes) [] ''not json'' =
     ([Print (Invalid_JSON ''Expecting value: line 1 column 1 (char 0)'')], None)"
proof -
  have "json_loads (reading text_empty_notes doc_empty_notes) ''not json'' =
          JSONDecodeError ''Expecting value: line 1 column 1 (char 0)''"
    by (simp add: reading_def text_empty_notes_def)
  from malformed_json [OF this, of "[]"] show ?thesis by simp
qed

text \<open>
  C7. The result of the validation depends on the text alone, not on what happened
  before the call: a second call, made after the first, returns what the first returned
  and prints what the first printed. Its only effect is at most one line on the console:
  no call to the remote service, no sleep.
\<close>

theorem validate_pure:
  "snd (validate_and_create_notes lib tr s) = snd (validate_and_create_notes lib tr0 s)
   \<and> snd (validate_and_create_notes lib (fst (validate_and_create_notes lib tr s)) s)
       = snd (validate_and_create_notes lib tr s)
   \<and> (\<exists>ms. length ms \<le> 1
         \<and> fst (validate_and_create_notes lib tr s) = tr @ map Print ms
         \<and> fst (validate_and_create_notes lib (fst (validate_and_create_notes lib tr s)) s)
             = fst (validate_and_create_notes lib tr s) @ map Print ms)"
proof -
  obtain ms where ms: "length ms \<le> 1"
    and any: "\<And>t. validate_and_create_notes lib t s =
                 (t @ map Print ms, snd (validate_and_create_notes lib [] s))"
    using validate_and_create_notes_prints [of lib s] by blast
  have "fst (validate_and_create_notes lib tr s) = tr @ map Print ms"
    by (simp add: any [of tr])
  moreover have "fst (validate_and_create_notes lib (tr @ map Print ms) s)
      = (tr @ map Print ms) @ map Print ms"
    by (simp add: any [of "tr @ map Print ms"])
  moreover have "snd (validate_and_create_notes lib t s)
      = snd (validate_and_create_notes lib [] s)" for t
    by (simp add: any [of t])
  ultimately show ?thesis using ms by (metis append.assoc)
qed

text \<open>
  C8 (as amended). Every list of notes that the validation returns has length 10 and
  every note id in it lies between 1 and 10. The ids need not be distinct.
\<close>

theorem notes_invariant:
  assumes "validate_and_create_notes lib tr s = (tr', Some notes)"
  shows "length notes = 10 \<and> (\<forall>n \<in> set notes. 1 \<le> note_id n \<and> note_id n \<le> 10)"
proof -
  from validate_and_create_notes_Some [OF assms]
  obtain kwargs where "NotesResponse_validate lib kwargs = Inr notes" by blast
  from NotesResponse_validate_Inr [OF this]
  obtain items where "length items = 10" "validate_items lib items = Inr notes" by blast
  then show ?thesis
    using validate_items_length [of lib items "notes"]
      validate_items_id_range [of lib items "notes"]
    by auto
qed

text \<open>
  C8 as stated fails: ten notes that all have id 1 are accepted.
\<close>

theorem duplicate_ids_counterexample:
  "validate_and_create_notes (reading text_duplicate_ids doc_duplicate_ids) []
     text_duplicate_ids =
   ([], Some (map (\<lambda>i. result_note i None) [1, 1, 1, 1, 1, 1, 1, 1, 1, 1]))
   \<and> \<not> distinct (map note_id (map (\<lambda>i. result_note i None) [1, 1, 1, 1, 1, 1, 1, 1, 1, 1]))"
  by (simp add: validate_and_create_notes_def reading_def doc_duplicate_ids_def
      NotesResponse_validate_def Note_validate_def validate_id_def validate_heading_def
      validate_summary_def validate_page_ref_def as_int_def plain_note_def result_note_def)

theorem notes_invariant_witness:
  "validate_and_create_notes (reading text_negative_page doc_negative_page) []
     text_negative_page =
   ([], Some (result_note 1 (Some (- 5))
              # map (\<lambda>i. result_note i None) [2, 3, 4, 5, 6, 7, 8, 9, 10]))
   \<and> length (result_note 1 (Some (- 5))
              # map (\<lambda>i. result_note i None) [2, 3, 4, 5, 6, 7, 8, 9, 10]) = 10
   \<and> 1 \<le> note_id (result_note 1 (Some (- 5)))
   \<and> note_id (result_note 1 (Some (- 5))) \<le> 10"
proof -
  have e: "validate_and_create_notes (reading text_negative_page doc_negative_page) []
     text_negative_page =
   ([], Some (result_note 1 (Some (- 5))
              # map (\<lambda>i. result_note i None) [2, 3, 4, 5, 6, 7, 8, 9, 10]))"
    by (simp add: validate_and_create_notes_def reading_def doc_negative_page_def
      NotesResponse_validate_def Note_validate_def validate_id_def validate_heading_def
      validate_summary_def validate_page_ref_def as_int_def plain_note_def result_note_def)
  from notes_invariant [OF e] e show ?thesis by simp
qed



end
